theory Spec2Isabelle
  imports Main
begin

section \<open>Errors and the multierr library\<close>

text \<open>
  A Go \<^verbatim>\<open>error\<close> value. \<^verbatim>\<open>nil\<close> is \<open>None\<close> of \<open>error option\<close>.
  \<open>Plain\<close> is an error with a message (\<^verbatim>\<open>errors.New\<close>, \<^verbatim>\<open>fmt.Errorf\<close>),
  \<open>MultiError\<close> is multierr's \<^verbatim>\<open>multiError{errors []error}\<close>, and
  \<open>ErrorWithGraph\<close> is the struct \<^verbatim>\<open>errorWithGraph{graph, err}\<close> of the fx package.
\<close>

datatype error =
    Plain string
  | MultiError "error list"
  | ErrorWithGraph string error

text \<open>
  \<^verbatim>\<open>go.uber.org/multierr\<close> is an external library. \<open>Errors\<close> is its view of an error as a
  list (a multiError is its members, any other error is itself), \<open>fromSlice\<close> drops the
  nils and flattens one level, returning nil for no error and the error itself when there is
  exactly one.
\<close>

fun Errors :: "error \<Rightarrow> error list" where
  "Errors (MultiError es) = es"
| "Errors e = [e]"

definition fromSlice :: "error option list \<Rightarrow> error option" where
  "fromSlice errs =
     (case List.map_filter id errs of
        [] \<Rightarrow> None
      | [e] \<Rightarrow> Some e
      | es \<Rightarrow> Some (MultiError (concat (map Errors es))))"

definition Combine :: "error option list \<Rightarrow> error option" where
  "Combine errs = fromSlice errs"

definition multierr_Append :: "error option \<Rightarrow> error option \<Rightarrow> error option" where
  "multierr_Append left right =
     (case left of
        None \<Rightarrow> right
      | Some l \<Rightarrow>
          (case right of
             None \<Rightarrow> left
           | Some r \<Rightarrow> Some (MultiError (Errors l @ Errors r))))"

section \<open>Contexts, hooks and the call log\<close>

text \<open>
  A \<^verbatim>\<open>context.Context\<close> as far as the program builds one: the background context and
  \<^verbatim>\<open>context.WithTimeout(parent, d)\<close>, with \<open>d\<close> a \<^verbatim>\<open>time.Duration\<close>.
\<close>

datatype "context" = Background | WithTimeout "context" int

text \<open>
  The log of the calls made to user callbacks, in the order they are made: hook \<open>i\<close> of
  \<^verbatim>\<open>l.hooks\<close> had its \<^verbatim>\<open>OnStart\<close> (\<^verbatim>\<open>OnStop\<close>) called with a context, or error
  handler \<open>i\<close> of \<^verbatim>\<open>app.errorHooks\<close> was handed an error. The source logs
  \<^verbatim>\<open>START\<close> and \<^verbatim>\<open>STOP\<close> lines at the same places.
\<close>

datatype event =
    StartCalled nat "context"
  | StopCalled nat "context"
  | ErrorHandled nat error

text \<open>
  A callback \<^verbatim>\<open>func(context.Context) error\<close> acts on the state \<open>'w\<close> of everything outside
  the orchestrator and returns nil or an error. The run-time environment is that state and
  the call log.
\<close>

type_synonym 'w action = "context \<Rightarrow> 'w \<Rightarrow> error option \<times> 'w"

type_synonym 'w env = "'w \<times> event list"

record 'w Hook =
  OnStart :: "'w action option"
  OnStop :: "'w action option"
  caller :: string

record 'w Lifecycle =
  hooks :: "'w Hook list"
  numStarted :: int

section \<open>package lifecycle\<close>

definition Lifecycle_New :: "'w Lifecycle" where
  "Lifecycle_New = \<lparr>hooks = [], numStarted = 0\<rparr>"

text \<open>\<^verbatim>\<open>Append\<close>; the result of \<^verbatim>\<open>fxreflect.Caller()\<close> is the argument \<open>c\<close>.\<close>

definition Append :: "string \<Rightarrow> 'w Hook \<Rightarrow> 'w Lifecycle \<Rightarrow> 'w Lifecycle" where
  "Append c hook l = l\<lparr>hooks := hooks l @ [hook\<lparr>caller := c\<rparr>]\<rparr>"

text \<open>
  The loop of \<^verbatim>\<open>Lifecycle.Start\<close> over \<^verbatim>\<open>range l.hooks\<close>: \<open>i\<close> is the index of the
  current hook, \<open>n\<close> is \<^verbatim>\<open>l.numStarted\<close>.
\<close>

fun Start_range ::
  "context \<Rightarrow> 'w Hook list \<Rightarrow> nat \<Rightarrow> int \<Rightarrow> 'w env \<Rightarrow> error option \<times> int \<times> 'w env" where
  "Start_range ctx [] i n (w, tr) = (None, n, (w, tr))"
| "Start_range ctx (hook # rest) i n (w, tr) =
     (case OnStart hook of
        None \<Rightarrow> Start_range ctx rest (Suc i) (n + 1) (w, tr)
      | Some f \<Rightarrow>
          (case f ctx w of
             (Some e, w') \<Rightarrow> (Some e, n, (w', tr @ [StartCalled i ctx]))
           | (None, w') \<Rightarrow>
               Start_range ctx rest (Suc i) (n + 1) (w', tr @ [StartCalled i ctx])))"

definition Lifecycle_Start ::
  "context \<Rightarrow> 'w Lifecycle \<Rightarrow> 'w env \<Rightarrow> error option \<times> 'w Lifecycle \<times> 'w env" where
  "Lifecycle_Start ctx l s =
     (case Start_range ctx (hooks l) 0 (numStarted l) s of
        (r, n, s') \<Rightarrow> (r, l\<lparr>numStarted := n\<rparr>, s'))"

text \<open>
  The loop of \<^verbatim>\<open>Lifecycle.Stop\<close>: \<open>n\<close> is \<^verbatim>\<open>l.numStarted\<close>, \<open>errs\<close> the slice of
  collected errors. \<^verbatim>\<open>l.hooks[l.numStarted-1]\<close> panics when the index is out of range:
  the result is then \<open>None\<close>.
\<close>

function Stop_loop ::
  "context \<Rightarrow> 'w Hook list \<Rightarrow> int \<Rightarrow> 'w env \<Rightarrow> error list \<Rightarrow>
     (int \<times> 'w env \<times> error list) option" where
  "Stop_loop ctx hs n s errs =
     (if n > 0 then
        (if nat (n - 1) < length hs then
           (case OnStop (hs ! nat (n - 1)) of
              None \<Rightarrow> Stop_loop ctx hs (n - 1) s errs
            | Some f \<Rightarrow>
                Stop_loop ctx hs (n - 1)
                  (snd (f ctx (fst s)), snd s @ [StopCalled (nat (n - 1)) ctx])
                  (case fst (f ctx (fst s)) of None \<Rightarrow> errs | Some e \<Rightarrow> errs @ [e]))
         else None)
      else Some (n, s, errs))"
  by pat_completeness auto
termination
  by (relation "measure (\<lambda>(ctx, hs, n, s, errs). nat n)") auto

declare Stop_loop.simps [simp del]

definition Lifecycle_Stop ::
  "context \<Rightarrow> 'w Lifecycle \<Rightarrow> 'w env \<Rightarrow> (error option \<times> 'w Lifecycle \<times> 'w env) option" where
  "Lifecycle_Stop ctx l s =
     (case Stop_loop ctx (hooks l) (numStarted l) s [] of
        None \<Rightarrow> None
      | Some (n, s', errs) \<Rightarrow> Some (Combine (map Some errs), l\<lparr>numStarted := n\<rparr>, s'))"


text \<open>The calls a phase adds to the log: the hooks among \<open>js\<close> that have the callback.\<close>

definition start_calls :: "context \<Rightarrow> 'w Hook list \<Rightarrow> nat list \<Rightarrow> event list" where
  "start_calls ctx hs js =
     map (\<lambda>j. StartCalled j ctx) (filter (\<lambda>j. OnStart (hs ! j) \<noteq> None) js)"

definition stop_calls :: "context \<Rightarrow> 'w Hook list \<Rightarrow> nat list \<Rightarrow> event list" where
  "stop_calls ctx hs js =
     map (\<lambda>j. StopCalled j ctx) (filter (\<lambda>j. OnStop (hs ! j) \<noteq> None) js)"

text \<open>
  What calling the stop actions of the hooks \<open>js\<close>, one after the other in the order of the
  list, does: a hook without a stop action is passed over, the stop action of the others
  is applied to the state of the outside, and the errors they return are collected in the
  order of the calls.
\<close>

definition stop_step ::
  "context \<Rightarrow> 'w Hook list \<Rightarrow> nat \<Rightarrow> 'w \<times> error list \<Rightarrow> 'w \<times> error list" where
  "stop_step ctx hs j s =
     (case OnStop (hs ! j) of
        None \<Rightarrow> s
      | Some f \<Rightarrow>
          (snd (f ctx (fst s)),
           snd s @ (case fst (f ctx (fst s)) of None \<Rightarrow> [] | Some e \<Rightarrow> [e])))"

definition stop_effects :: "context \<Rightarrow> 'w Hook list \<Rightarrow> nat list \<Rightarrow> 'w \<Rightarrow> 'w \<times> error list" where
  "stop_effects ctx hs js w = fold (stop_step ctx hs) js (w, [])"

section \<open>package fx: options and the application\<close>

datatype signal = SIGINT | SIGTERM

text \<open>\<^verbatim>\<open>syscall.Signal.String()\<close>, which \<^verbatim>\<open>%v\<close> prints.\<close>

fun signal_String :: "signal \<Rightarrow> string" where
  "signal_String SIGINT = ''interrupt''"
| "signal_String SIGTERM = ''terminated''"

text \<open>\<^verbatim>\<open>%v\<close> of a non-negative \<^verbatim>\<open>int\<close>: its decimal digits.\<close>

fun decimal :: "nat \<Rightarrow> string" where
  "decimal n =
     (if n < 10 then [''0123456789'' ! n]
      else decimal (n div 10) @ [''0123456789'' ! (n mod 10)])"

declare decimal.simps [simp del]

datatype ProvideOption = dig_Name string | dig_Group string

text \<open>
  A value passed to \<^verbatim>\<open>fx.Provide\<close>, by the dynamic type tests \<^verbatim>\<open>App.provide\<close> makes:
  a value that implements \<^verbatim>\<open>Option\<close>; an \<^verbatim>\<open>Annotated{Name, Group, Target}\<close>; any other
  value, with the flag saying that it is a function with a result of type
  \<^verbatim>\<open>Annotated\<close>. The function component is what \<^verbatim>\<open>container.Provide\<close> of the external
  dig library does with the value (the container is part of the state \<open>'w\<close>), the last
  string is what \<^verbatim>\<open>%v\<close> prints for the value.
\<close>

datatype 'w constructor =
    OptionC string
  | AnnotatedC string string "ProvideOption list \<Rightarrow> 'w \<Rightarrow> error option \<times> 'w" string
  | OtherC bool "'w \<Rightarrow> error option \<times> 'w" string

text \<open>
  A value passed to \<^verbatim>\<open>fx.Invoke\<close>: one that implements \<^verbatim>\<open>Option\<close>, or a function.
  \<^verbatim>\<open>container.Invoke\<close> builds the arguments and calls it: the function component gives
  its error, the hooks it and the constructors it triggers append to the lifecycle (each with
  the caller \<^verbatim>\<open>Append\<close> records) and the new state.
\<close>

datatype 'w invocation =
    OptionI string
  | FuncI "'w \<Rightarrow> error option \<times> (string \<times> 'w Hook) list \<times> 'w"

type_synonym 'w ErrorHandler = "error \<Rightarrow> 'w \<Rightarrow> 'w"

datatype 'w Option =
    Provide "'w constructor list"
  | Invoke "'w invocation list"
  | Error "error option list"
  | Options "'w Option list"
  | StartTimeout int
  | StopTimeout int
  | Logger
  | ErrorHook "'w ErrorHandler list"

text \<open>
  The struct \<^verbatim>\<open>App\<close>. A channel of \<^verbatim>\<open>dones\<close> is made with capacity 1: it holds no
  signal or one. The container and the logger are outside the model. The field
  \<^verbatim>\<open>lifecycle\<close> is a \<^verbatim>\<open>lifecycleWrapper\<close> around the \<^verbatim>\<open>Lifecycle\<close> of package lifecycle,
  whose \<^verbatim>\<open>Start\<close> and \<^verbatim>\<open>Stop\<close> it calls: it is that lifecycle here.
\<close>

record 'w App =
  err :: "error option"
  lifecycle :: "'w Lifecycle"
  provides :: "'w constructor list"
  invokes :: "'w invocation list"
  startTimeout :: int
  stopTimeout :: int
  errorHooks :: "'w ErrorHandler list"
  dones :: "signal option list"

text \<open>
  What the orchestrator uses of the external dig library: registering the three built-in
  constructors of \<^verbatim>\<open>New\<close>, \<^verbatim>\<open>dig.CanVisualizeError\<close>, and the text \<^verbatim>\<open>dig.Visualize\<close>
  writes for an error.
\<close>

record 'w dig =
  provideLifecycle :: "'w \<Rightarrow> error option \<times> 'w"
  provideShutdowner :: "'w \<Rightarrow> error option \<times> 'w"
  provideDotGraph :: "'w \<Rightarrow> error option \<times> 'w"
  CanVisualizeError :: "error \<Rightarrow> bool"
  Visualize :: "'w \<Rightarrow> error \<Rightarrow> string"

definition DefaultTimeout :: int where
  "DefaultTimeout = 15 * 1000000000"

text \<open>The \<^verbatim>\<open>apply\<close> methods of the options.\<close>

fun Option_apply :: "'w Option \<Rightarrow> 'w App \<Rightarrow> 'w App" where
  "Option_apply (Provide po) app = app\<lparr>provides := provides app @ po\<rparr>"
| "Option_apply (Invoke io) app = app\<lparr>invokes := invokes app @ io\<rparr>"
| "Option_apply (Error errs) app = app\<lparr>err := multierr_Append (err app) (Combine errs)\<rparr>"
| "Option_apply (Options og) app = fold Option_apply og app"
| "Option_apply (StartTimeout v) app = app\<lparr>startTimeout := v\<rparr>"
| "Option_apply (StopTimeout v) app = app\<lparr>stopTimeout := v\<rparr>"
| "Option_apply Logger app = app\<lparr>lifecycle := Lifecycle_New\<rparr>"
| "Option_apply (ErrorHook eho) app = app\<lparr>errorHooks := errorHooks app @ eho\<rparr>"

text \<open>\<^verbatim>\<open>errorHandlerList.HandleError\<close>: \<open>i\<close> is the index of the current handler.\<close>

fun HandleError :: "'w ErrorHandler list \<Rightarrow> nat \<Rightarrow> error \<Rightarrow> 'w env \<Rightarrow> 'w env" where
  "HandleError [] i e s = s"
| "HandleError (eh # rest) i e (w, tr) =
     HandleError rest (Suc i) e (eh e w, tr @ [ErrorHandled i e])"

text \<open>\<^verbatim>\<open>App.provide\<close>.\<close>

fun provide :: "'w constructor \<Rightarrow> 'w App \<times> 'w env \<Rightarrow> 'w App \<times> 'w env" where
  "provide c (app, (w, tr)) =
     (if err app \<noteq> None then (app, (w, tr))
      else
        (case c of
           OptionC v \<Rightarrow>
             (app\<lparr>err := Some (Plain
                (''fx.Option should be passed to fx.New directly, not to fx.Provide: fx.Provide received '' @ v))\<rparr>,
              (w, tr))
         | AnnotatedC name grp target v \<Rightarrow>
             (if length grp > 0 \<and> length name > 0 then
                (app\<lparr>err := Some (Plain
                   (''fx.Annotate may not specify both name and group for '' @ v))\<rparr>,
                 (w, tr))
              else
                (case target (if length name > 0 then [dig_Name name]
                              else if length grp > 0 then [dig_Group grp] else []) w of
                   (Some e, w') \<Rightarrow> (app\<lparr>err := Some e\<rparr>, (w', tr))
                 | (None, w') \<Rightarrow> (app, (w', tr))))
         | OtherC returnsAnnotated target v \<Rightarrow>
             (if returnsAnnotated then
                (app\<lparr>err := Some (Plain
                   (''fx.Annotated should be passed to fx.Provide directly, it should not be returned by the constructor: fx.Provide received '' @ v))\<rparr>,
                 (w, tr))
              else
                (case target w of
                   (Some e, w') \<Rightarrow> (app\<lparr>err := Some e\<rparr>, (w', tr))
                 | (None, w') \<Rightarrow> (app, (w', tr))))))"

text \<open>
  \<^verbatim>\<open>App.executeInvokes\<close>: the loop over \<^verbatim>\<open>app.invokes\<close> breaks at the first error and
  returns it. The hooks an invocation registers go through \<^verbatim>\<open>Append\<close>.
\<close>

fun executeInvokes_range ::
  "'w invocation list \<Rightarrow> 'w Lifecycle \<Rightarrow> 'w \<Rightarrow> error option \<times> 'w Lifecycle \<times> 'w" where
  "executeInvokes_range [] l w = (None, l, w)"
| "executeInvokes_range (fn # rest) l w =
     (case fn of
        OptionI v \<Rightarrow>
          (Some (Plain
             (''fx.Option should be passed to fx.New directly, not to fx.Invoke: fx.Invoke received '' @ v)),
           l, w)
      | FuncI f \<Rightarrow>
          (case f w of
             (Some e, hs, w') \<Rightarrow> (Some e, fold (\<lambda>(c, h). Append c h) hs l, w')
           | (None, hs, w') \<Rightarrow> executeInvokes_range rest (fold (\<lambda>(c, h). Append c h) hs l) w'))"

definition executeInvokes :: "'w App \<times> 'w env \<Rightarrow> error option \<times> 'w App \<times> 'w env" where
  "executeInvokes s =
     (case s of (app, (w, tr)) \<Rightarrow>
        (case executeInvokes_range (invokes app) (lifecycle app) w of
           (r, l, w') \<Rightarrow> (r, app\<lparr>lifecycle := l\<rparr>, (w', tr))))"

text \<open>The built-in constructors of \<^verbatim>\<open>New\<close> are functions that do not return \<^verbatim>\<open>Annotated\<close>.\<close>

definition builtin_provides :: "'w dig \<Rightarrow> 'w constructor list" where
  "builtin_provides d =
     [OtherC False (provideLifecycle d) ''func() fx.Lifecycle'',
      OtherC False (provideShutdowner d) ''app.shutdowner'',
      OtherC False (provideDotGraph d) ''app.dotGraph'']"

text \<open>
  \<^verbatim>\<open>New\<close>, from the state \<open>w\<close> of the outside and an empty call log, in three parts:
  the struct it starts from, its first half up to the test \<^verbatim>\<open>app.err != nil\<close> (the
  options applied, the constructors and the three built-in ones provided), and the whole.
\<close>

definition New_App :: "'w App" where
  "New_App = \<lparr>err = None, lifecycle = Lifecycle_New, provides = [], invokes = [],
              startTimeout = DefaultTimeout, stopTimeout = DefaultTimeout,
              errorHooks = [], dones = []\<rparr>"

definition New_provided :: "'w dig \<Rightarrow> 'w Option list \<Rightarrow> 'w \<Rightarrow> 'w App \<times> 'w env" where
  "New_provided d opts w =
     (let app = fold Option_apply opts New_App in
        fold provide (builtin_provides d) (fold provide (provides app) (app, (w, []))))"

definition New :: "'w dig \<Rightarrow> 'w Option list \<Rightarrow> 'w \<Rightarrow> 'w App \<times> 'w env" where
  "New d opts w =
     (if err (fst (New_provided d opts w)) \<noteq> None then New_provided d opts w
      else
        (case executeInvokes (New_provided d opts w) of
           (None, app, s) \<Rightarrow> (app, s)
         | (Some e, app, (w', tr)) \<Rightarrow>
             (app\<lparr>err := Some e\<rparr>,
              HandleError (errorHooks app) 0
                (if CanVisualizeError d e then ErrorWithGraph (Visualize d w' e) e else e)
                (w', tr))))"

text \<open>
  \<^verbatim>\<open>withTimeout\<close> starts \<open>f\<close> in a goroutine and returns what comes first: the result of
  \<open>f\<close> or the end of the context. Which one wins is not decided by the program: \<open>expired\<close>
  is \<^verbatim>\<open>ctx.Err()\<close> when the context ends first, and \<open>None\<close> when \<open>f\<close> returns first. The
  goroutine is not stopped, so its effect on the state is kept in both cases. A panic of
  \<open>f\<close> (\<open>None\<close>) ends the process.
\<close>

definition withTimeout ::
  "error option \<Rightarrow> context \<Rightarrow> (context \<Rightarrow> 's \<Rightarrow> (error option \<times> 's) option) \<Rightarrow> 's \<Rightarrow>
     (error option \<times> 's) option" where
  "withTimeout expired ctx f s =
     (case f ctx s of
        None \<Rightarrow> None
      | Some (r, s') \<Rightarrow> Some (case expired of Some ce \<Rightarrow> Some ce | None \<Rightarrow> r, s'))"

text \<open>\<^verbatim>\<open>App.start\<close>.\<close>

definition start ::
  "context \<Rightarrow> 'w App \<times> 'w env \<Rightarrow> (error option \<times> 'w App \<times> 'w env) option" where
  "start ctx s =
     (case s of (app, env) \<Rightarrow>
        (if err app \<noteq> None then Some (err app, app, env)
         else
           (case Lifecycle_Start ctx (lifecycle app) env of
              (Some e, l1, env1) \<Rightarrow>
                (case Lifecycle_Stop ctx l1 env1 of
                   None \<Rightarrow> None
                 | Some (Some stopErr, l2, env2) \<Rightarrow>
                     Some (multierr_Append (Some e) (Some stopErr), app\<lparr>lifecycle := l2\<rparr>, env2)
                 | Some (None, l2, env2) \<Rightarrow> Some (Some e, app\<lparr>lifecycle := l2\<rparr>, env2))
            | (None, l1, env1) \<Rightarrow> Some (None, app\<lparr>lifecycle := l1\<rparr>, env1))))"

text \<open>\<^verbatim>\<open>App.Start\<close> and \<^verbatim>\<open>App.Stop\<close>.\<close>

definition App_Start ::
  "error option \<Rightarrow> context \<Rightarrow> 'w App \<times> 'w env \<Rightarrow> (error option \<times> 'w App \<times> 'w env) option" where
  "App_Start expired ctx s = withTimeout expired ctx start s"

definition App_Stop ::
  "error option \<Rightarrow> context \<Rightarrow> 'w App \<times> 'w env \<Rightarrow> (error option \<times> 'w App \<times> 'w env) option" where
  "App_Stop expired ctx s =
     withTimeout expired ctx
       (\<lambda>c (app, env).
          map_option (\<lambda>(r, l, env'). (r, app\<lparr>lifecycle := l\<rparr>, env'))
            (Lifecycle_Stop c (lifecycle app) env)) s"

text \<open>\<^verbatim>\<open>App.Done\<close> adds an empty channel to \<^verbatim>\<open>app.dones\<close>.\<close>

definition App_Done :: "'w App \<Rightarrow> 'w App" where
  "App_Done app = app\<lparr>dones := dones app @ [None]\<rparr>"

section \<open>shutdown.go\<close>

text \<open>
  The loop of \<^verbatim>\<open>broadcastSignal\<close>: a send to a channel that holds no signal puts the
  signal there, a send to a full channel takes the \<^verbatim>\<open>default\<close> branch.
\<close>

fun broadcast_range :: "signal \<Rightarrow> signal option list \<Rightarrow> nat \<Rightarrow> signal option list \<times> nat" where
  "broadcast_range sig [] unsent = ([], unsent)"
| "broadcast_range sig (ch # rest) unsent =
     (case ch of
        None \<Rightarrow>
          (case broadcast_range sig rest unsent of (chs, u) \<Rightarrow> (Some sig # chs, u))
      | Some pending \<Rightarrow>
          (case broadcast_range sig rest (unsent + 1) of (chs, u) \<Rightarrow> (Some pending # chs, u)))"

definition broadcastSignal :: "signal \<Rightarrow> 'w App \<Rightarrow> error option \<times> 'w App" where
  "broadcastSignal sig app =
     (case broadcast_range sig (dones app) 0 of
        (chs, unsent) \<Rightarrow>
          (if unsent \<noteq> 0 then
             Some (Plain (''failed to send '' @ signal_String sig @ '' signal to '' @
                          decimal unsent @ '' out of '' @ decimal (length (dones app)) @
                          '' channels''))
           else None,
           app\<lparr>dones := chs\<rparr>))"

text \<open>
  \<^verbatim>\<open>shutdowner.Shutdown\<close>. A \<^verbatim>\<open>ShutdownOption\<close> has the method \<^verbatim>\<open>apply(*shutdowner)\<close>;
  the shutdowner holds the application.
\<close>

type_synonym 'w ShutdownOption = "'w App \<Rightarrow> 'w App"

definition Shutdown :: "'w ShutdownOption list \<Rightarrow> 'w App \<Rightarrow> error option \<times> 'w App" where
  "Shutdown opts app = broadcastSignal SIGTERM app"


section \<open>The run driver and sequences of calls\<close>

text \<open>
  \<^verbatim>\<open>App.run(done)\<close>. \<^verbatim>\<open>logger.Fatalf\<close> ends the process. The receive \<^verbatim>\<open><-done\<close>
  blocks until the channel holds a signal and takes it out; \<open>ch\<close> is the index of the
  channel in \<^verbatim>\<open>app.dones\<close>, and the run is followed from the moment the signal has arrived.
\<close>

datatype 's exit =
    Panicked
  | FailedToStart error 's
  | FailedToStop error 's
  | Returned 's

definition run ::
  "error option \<Rightarrow> error option \<Rightarrow> nat \<Rightarrow> 'w App \<times> 'w env \<Rightarrow> ('w App \<times> 'w env) exit" where
  "run expired1 expired2 ch s =
     (let startCtx = WithTimeout Background (startTimeout (fst s)) in
        (case App_Start expired1 startCtx s of
           None \<Rightarrow> Panicked
         | Some (Some e, s1) \<Rightarrow> FailedToStart e s1
         | Some (None, (app1, env1)) \<Rightarrow>
             (let app2 = app1\<lparr>dones := (dones app1)[ch := None]\<rparr>;
                  stopCtx = WithTimeout Background (stopTimeout app2) in
                (case App_Stop expired2 stopCtx (app2, env1) of
                   None \<Rightarrow> Panicked
                 | Some (Some e, s3) \<Rightarrow> FailedToStop e s3
                 | Some (None, s3) \<Rightarrow> Returned s3))))"

text \<open>
  What can happen to an application after \<^verbatim>\<open>New\<close>, one step after the other: the
  exported calls \<^verbatim>\<open>Start\<close>, \<^verbatim>\<open>Stop\<close>, \<^verbatim>\<open>Done\<close> and \<^verbatim>\<open>Shutdown\<close>, a late
  \<^verbatim>\<open>Append\<close> through the provided lifecycle, the delivery of a signal of the operating
  system to the channels, a receive from channel \<open>i\<close>, and any change of the state of the
  outside. \<open>None\<close> is a panic.
\<close>

datatype 'w call =
    CallStart "error option" "context"
  | CallStop "error option" "context"
  | CallDone
  | CallShutdown
  | CallAppend string "'w Hook"
  | Notify signal
  | Receive nat
  | Outside "'w \<Rightarrow> 'w"

fun exec_call :: "'w call \<Rightarrow> 'w App \<times> 'w env \<Rightarrow> ('w App \<times> 'w env) option" where
  "exec_call (CallStart expired ctx) s = map_option snd (App_Start expired ctx s)"
| "exec_call (CallStop expired ctx) s = map_option snd (App_Stop expired ctx s)"
| "exec_call CallDone (app, env) = Some (App_Done app, env)"
| "exec_call CallShutdown (app, env) = Some (snd (Shutdown [] app), env)"
| "exec_call (CallAppend c hook) (app, env) =
     Some (app\<lparr>lifecycle := Append c hook (lifecycle app)\<rparr>, env)"
| "exec_call (Notify sig) (app, env) = Some (snd (broadcastSignal sig app), env)"
| "exec_call (Receive i) (app, env) = Some (app\<lparr>dones := (dones app)[i := None]\<rparr>, env)"
| "exec_call (Outside f) (app, (w, tr)) = Some (app, (f w, tr))"

fun exec_calls :: "'w call list \<Rightarrow> 'w App \<times> 'w env \<Rightarrow> ('w App \<times> 'w env) option" where
  "exec_calls [] s = Some s"
| "exec_calls (c # cs) s =
     (case exec_call c s of None \<Rightarrow> None | Some s' \<Rightarrow> exec_calls cs s')"

text \<open>
  The error handlers an option registers, in the order of registration: those of the
  \<^verbatim>\<open>ErrorHook\<close> options, from left to right, through option groups.
\<close>

fun registered_handlers :: "'w Option \<Rightarrow> 'w ErrorHandler list" where
  "registered_handlers (ErrorHook eho) = eho"
| "registered_handlers (Options og) = concat (map registered_handlers og)"
| "registered_handlers (Provide po) = []"
| "registered_handlers (Invoke io) = []"
| "registered_handlers (Error errs) = []"
| "registered_handlers (StartTimeout v) = []"
| "registered_handlers (StopTimeout v) = []"
| "registered_handlers Logger = []"


section \<open>Example hooks and applications\<close>

text \<open>The state of the outside is a counter in these examples.\<close>

definition demo_A :: "nat Hook" where
  "demo_A = \<lparr>OnStart = Some (\<lambda>ctx w. (None, w + 1)),
             OnStop = Some (\<lambda>ctx w. (Some (Plain ''stop A''), w + 10)), caller = ''A''\<rparr>"

definition demo_B :: "nat Hook" where
  "demo_B = \<lparr>OnStart = Some (\<lambda>ctx w. (if w = 1 then Some (Plain ''start B'') else None, w + 2)),
             OnStop = None, caller = ''B''\<rparr>"

definition demo_C :: "nat Hook" where
  "demo_C = \<lparr>OnStart = None, OnStop = Some (\<lambda>ctx w. (None, w + 100)), caller = ''C''\<rparr>"

definition demo_dig :: "nat dig" where
  "demo_dig = \<lparr>provideLifecycle = (\<lambda>w. (None, w)), provideShutdowner = (\<lambda>w. (None, w)),
               provideDotGraph = (\<lambda>w. (None, w)), CanVisualizeError = (\<lambda>e. False),
               Visualize = (\<lambda>w e. [])\<rparr>"

text \<open>An invocation that registers the hooks A and B and succeeds.\<close>

definition demo_register :: "nat invocation" where
  "demo_register = FuncI (\<lambda>w. (None, [(''A'', demo_A), (''B'', demo_B)], w))"

text \<open>An invocation that fails.\<close>

definition demo_failing :: "nat invocation" where
  "demo_failing = FuncI (\<lambda>w. (Some (Plain ''invoke failed''), [], w))"


text \<open>
  An application with a start timeout of 10 and a stop timeout of 20 whose invocation
  registers the hooks A and B.
\<close>

definition demo_app :: "nat App \<times> nat env" where
  "demo_app = New demo_dig [StartTimeout 10, StopTimeout 20, Invoke [demo_register]] 0"

text \<open>An error handler that adds 1000 to the counter.\<close>

definition demo_handler :: "nat ErrorHandler" where
  "demo_handler = (\<lambda>e w. w + 1000)"

text \<open>An error handler that doubles the counter.\<close>

definition demo_handler2 :: "nat ErrorHandler" where
  "demo_handler2 = (\<lambda>e w. 2 * w)"

section \<open>Properties of the lifecycle\<close>

text \<open>Running the loop over the first k hooks, then over the rest.\<close>
lemma Start_range_append:
  "Start_range ctx (xs @ ys) i n s =
     (case Start_range ctx xs i n s of
        (None, n', s') \<Rightarrow> Start_range ctx ys (i + length xs) n' s'
      | (Some e, n', s') \<Rightarrow> (Some e, n', s'))"
proof (induction xs arbitrary: i n s)
  case Nil
  then show ?case by (cases s) simp
next
  case (Cons h xs)
  obtain w tr where s: "s = (w, tr)" by (cases s)
  show ?case
  proof (cases "OnStart h")
    case None
    then show ?thesis using Cons.IH [of "Suc i" "n + 1" "(w, tr)"]
      by (simp add: s split: prod.splits option.splits)
  next
    case (Some f)
    obtain r w' where f: "f ctx w = (r, w')" by (cases "f ctx w")
    show ?thesis
    proof (cases r)
      case None
      then show ?thesis
        using \<open>OnStart h = Some f\<close> f Cons.IH [of "Suc i" "n + 1" "(w', tr @ [StartCalled i ctx])"]
        by (simp add: s split: prod.splits option.splits)
    next
      case (Some e)
      then show ?thesis using \<open>OnStart h = Some f\<close> f by (simp add: s)
    qed
  qed
qed

lemma Start_range_ok:
  "Start_range ctx xs i n (w, tr) = (None, n', (w', tr')) \<Longrightarrow>
     n' = n + int (length xs) \<and>
     tr' = tr @ map (\<lambda>j. StartCalled (i + j) ctx) (filter (\<lambda>j. OnStart (xs ! j) \<noteq> None) [0..<length xs])"
proof (induction xs arbitrary: i n w tr)
  case Nil
  then show ?case by simp
next
  case (Cons h xs)
  have upt: "[0..<length (h # xs)] = 0 # map Suc [0..<length xs]"
    by (simp add: upt_conv_Cons map_Suc_upt del: upt_Suc)
  show ?case
  proof (cases "OnStart h")
    case None
    with Cons.prems have "Start_range ctx xs (Suc i) (n + 1) (w, tr) = (None, n', (w', tr'))" by simp
    from Cons.IH [OF this] show ?thesis using None
      by (simp only: upt) (simp add: filter_map comp_def)
  next
    case (Some f)
    obtain r w1 where f: "f ctx w = (r, w1)" by (cases "f ctx w")
    with Cons.prems Some have r: "r = None" by (cases r) auto
    with Cons.prems Some f
    have "Start_range ctx xs (Suc i) (n + 1) (w1, tr @ [StartCalled i ctx]) = (None, n', (w', tr'))"
      by simp
    from Cons.IH [OF this] show ?thesis using Some
      by (simp only: upt) (simp add: filter_map comp_def)
  qed
qed


lemma start_calls_take:
  "k \<le> length hs \<Longrightarrow>
   map (\<lambda>j. StartCalled (0 + j) ctx) (filter (\<lambda>j. OnStart (take k hs ! j) \<noteq> None) [0..<length (take k hs)])
     = start_calls ctx hs [0..<k]"
  unfolding start_calls_def
  by (auto simp: min_absorb2 intro!: arg_cong [where f = "map _"] filter_cong)

lemma Stop_loop_done: "n \<le> 0 \<Longrightarrow> Stop_loop ctx hs n s errs = Some (n, s, errs)"
  by (simp add: Stop_loop.simps)

lemma Stop_loop_Suc:
  assumes "k < length hs"
  shows "Stop_loop ctx hs (int (Suc k)) (w, tr) errs =
     (case OnStop (hs ! k) of
        None \<Rightarrow> Stop_loop ctx hs (int k) (w, tr) errs
      | Some f \<Rightarrow>
          Stop_loop ctx hs (int k) (snd (f ctx w), tr @ [StopCalled k ctx])
            (case fst (f ctx w) of None \<Rightarrow> errs | Some e \<Rightarrow> errs @ [e]))"
  using assms by (subst Stop_loop.simps) (simp split: option.splits)

lemma Stop_loop_panic:
  "length hs < k \<Longrightarrow> Stop_loop ctx hs (int k) s errs = None"
  by (subst Stop_loop.simps) auto

lemma Stop_loop_ok:
  "k \<le> length hs \<Longrightarrow>
   \<exists>w' errs'. Stop_loop ctx hs (int k) (w, tr) errs =
      Some (0, (w', tr @ stop_calls ctx hs (rev [0..<k])), errs')"
proof (induction k arbitrary: w tr errs)
  case 0
  then show ?case by (simp add: Stop_loop_done stop_calls_def)
next
  case (Suc k)
  then have k: "k < length hs" "k \<le> length hs" by simp_all
  show ?case
  proof (cases "OnStop (hs ! k)")
    case None
    then show ?thesis
      using Suc.IH [OF k(2), of w tr errs] by (simp add: Stop_loop_Suc [OF k(1)] stop_calls_def del: of_nat_Suc)
  next
    case (Some f)
    then show ?thesis
      using Suc.IH [OF k(2), of "snd (f ctx w)" "tr @ [StopCalled k ctx]"
          "case fst (f ctx w) of None \<Rightarrow> errs | Some e \<Rightarrow> errs @ [e]"]
      by (simp add: Stop_loop_Suc [OF k(1)] stop_calls_def del: of_nat_Suc)
  qed
qed

lemma Lifecycle_Stop_ok:
  assumes "k \<le> length (hooks l)" "numStarted l = int k"
  shows "\<exists>r w'. Lifecycle_Stop ctx l (w, tr) =
      Some (r, l\<lparr>numStarted := 0\<rparr>, (w', tr @ stop_calls ctx (hooks l) (rev [0..<k])))"
proof -
  from Stop_loop_ok [OF assms(1), of ctx w tr "[]"]
  obtain w' errs' where "Stop_loop ctx (hooks l) (int k) (w, tr) [] =
      Some (0, (w', tr @ stop_calls ctx (hooks l) (rev [0..<k])), errs')" by blast
  then show ?thesis by (simp add: Lifecycle_Stop_def assms(2))
qed

lemma Stop_loop_eq:
  "k \<le> length hs \<Longrightarrow>
   Stop_loop ctx hs (int k) (w, tr) errs =
     Some (0, (fst (fold (stop_step ctx hs) (rev [0..<k]) (w, errs)),
               tr @ stop_calls ctx hs (rev [0..<k])),
           snd (fold (stop_step ctx hs) (rev [0..<k]) (w, errs)))"
proof (induction k arbitrary: w tr errs)
  case 0
  then show ?case by (simp add: Stop_loop_done stop_calls_def)
next
  case (Suc k)
  then have k: "k < length hs" "k \<le> length hs" by simp_all
  show ?case
  proof (cases "OnStop (hs ! k)")
    case None
    then show ?thesis
      using Suc.IH [OF k(2), of w tr errs]
      by (simp add: Stop_loop_Suc [OF k(1)] stop_calls_def stop_step_def del: of_nat_Suc)
  next
    case (Some f)
    have e: "(case fst (f ctx w) of None \<Rightarrow> errs | Some e \<Rightarrow> errs @ [e]) =
        errs @ (case fst (f ctx w) of None \<Rightarrow> [] | Some e \<Rightarrow> [e])"
      by (cases "fst (f ctx w)") simp_all
    show ?thesis
      using Some Suc.IH [OF k(2), of "snd (f ctx w)" "tr @ [StopCalled k ctx]"
          "errs @ (case fst (f ctx w) of None \<Rightarrow> [] | Some e \<Rightarrow> [e])"]
      by (simp add: Stop_loop_Suc [OF k(1)] stop_calls_def stop_step_def e del: of_nat_Suc)
  qed
qed

lemma Lifecycle_Stop_eq:
  assumes "k \<le> length (hooks l)" "numStarted l = int k"
  shows "Lifecycle_Stop ctx l (w, tr) =
      Some (Combine (map Some (snd (stop_effects ctx (hooks l) (rev [0..<k]) w))),
            l\<lparr>numStarted := 0\<rparr>,
            (fst (stop_effects ctx (hooks l) (rev [0..<k]) w),
             tr @ stop_calls ctx (hooks l) (rev [0..<k])))"
  using Stop_loop_eq [OF assms(1), of ctx w tr "[]"]
  by (simp add: Lifecycle_Stop_def assms(2) stop_effects_def)

text \<open>
  C1. When the start actions of hooks \<open>0..k-1\<close> have succeeded and the start action of hook
  \<open>k\<close> fails with \<open>e\<close>, \<^verbatim>\<open>Lifecycle.Start\<close> returns \<open>e\<close>, has called the start actions
  of the hooks up to \<open>k\<close> only (none after \<open>k\<close>), and has counted \<open>k\<close> hooks as started, not
  the failing one. A following \<^verbatim>\<open>Lifecycle.Stop\<close> on a lifecycle that began with
  \<^verbatim>\<open>numStarted = 0\<close> returns, and has called the stop actions of the hooks
  \<open>k-1, ..., 0\<close> that have one, in that order, and no other: the call log holds these calls,
  the state of the outside is what these stop actions make of it one after the other, the
  result combines the errors they returned, and \<^verbatim>\<open>numStarted\<close> is 0.
\<close>

theorem Start_failure_at_hook:
  assumes k: "k < length (hooks l)"
    and pre: "Lifecycle_Start ctx (l\<lparr>hooks := take k (hooks l)\<rparr>) (w, tr) = (None, l1, (w1, tr1))"
    and f: "OnStart (hooks l ! k) = Some f" "f ctx w1 = (Some e, w2)"
  shows "Lifecycle_Start ctx l (w, tr) =
           (Some e, l\<lparr>numStarted := numStarted l + int k\<rparr>,
            (w2, tr @ start_calls ctx (hooks l) [0..<Suc k])) \<and>
         (numStarted l = 0 \<longrightarrow>
            Lifecycle_Stop ctx' (l\<lparr>numStarted := numStarted l + int k\<rparr>) (w2, tr2) =
              Some (Combine (map Some (snd (stop_effects ctx' (hooks l) (rev [0..<k]) w2))),
                    l\<lparr>numStarted := 0\<rparr>,
                    (fst (stop_effects ctx' (hooks l) (rev [0..<k]) w2),
                     tr2 @ stop_calls ctx' (hooks l) (rev [0..<k]))))"
proof -
  let ?hs = "hooks l"
  obtain n1 where p: "Start_range ctx (take k ?hs) 0 (numStarted l) (w, tr) = (None, n1, (w1, tr1))"
    using pre by (auto simp: Lifecycle_Start_def split: prod.splits)
  from Start_range_ok [OF p] k
  have n1: "n1 = numStarted l + int k" and tr1: "tr1 = tr @ start_calls ctx ?hs [0..<k]"
    using start_calls_take [of k ?hs ctx] by (simp_all add: min_absorb2)
  have hs: "?hs = take k ?hs @ (?hs ! k # drop (Suc k) ?hs)"
    using k by (simp add: id_take_nth_drop [symmetric])
  have "Start_range ctx ?hs 0 (numStarted l) (w, tr) =
          Start_range ctx (?hs ! k # drop (Suc k) ?hs) k n1 (w1, tr1)"
    using k by (subst hs, subst Start_range_append) (simp add: p min_absorb2)
  also have "\<dots> = (Some e, n1, (w2, tr1 @ [StartCalled k ctx]))"
    using f by simp
  finally have "Start_range ctx ?hs 0 (numStarted l) (w, tr) =
      (Some e, numStarted l + int k, (w2, tr @ start_calls ctx ?hs [0..<Suc k]))"
    using f(1) by (simp add: n1 tr1 start_calls_def)
  then have A: "Lifecycle_Start ctx l (w, tr) =
           (Some e, l\<lparr>numStarted := numStarted l + int k\<rparr>,
            (w2, tr @ start_calls ctx (hooks l) [0..<Suc k]))"
    by (simp add: Lifecycle_Start_def)
  have B: "Lifecycle_Stop ctx' (l\<lparr>numStarted := numStarted l + int k\<rparr>) (w2, tr2) =
              Some (Combine (map Some (snd (stop_effects ctx' (hooks l) (rev [0..<k]) w2))),
                    l\<lparr>numStarted := 0\<rparr>,
                    (fst (stop_effects ctx' (hooks l) (rev [0..<k]) w2),
                     tr2 @ stop_calls ctx' (hooks l) (rev [0..<k])))" if "numStarted l = 0"
    using Lifecycle_Stop_eq [of k "l\<lparr>numStarted := numStarted l + int k\<rparr>" ctx' w2 tr2] k that
    by simp
  from A B show ?thesis by blast
qed

theorem Start_failure_at_hook_witness:
  "Lifecycle_Start Background \<lparr>hooks = [demo_A, demo_B, demo_C], numStarted = 0\<rparr> (0, []) =
     (Some (Plain ''start B''), \<lparr>hooks = [demo_A, demo_B, demo_C], numStarted = 1\<rparr>,
      (3, [StartCalled 0 Background, StartCalled 1 Background])) \<and>
   Lifecycle_Stop (WithTimeout Background 5)
        \<lparr>hooks = [demo_A, demo_B, demo_C], numStarted = 1\<rparr> (3, []) =
      Some (Some (Plain ''stop A''), \<lparr>hooks = [demo_A, demo_B, demo_C], numStarted = 0\<rparr>,
            (13, [StopCalled 0 (WithTimeout Background 5)]))"
proof -
  let ?l = "\<lparr>hooks = [demo_A, demo_B, demo_C], numStarted = 0\<rparr>"
  have k: "1 < length (hooks ?l)" by simp
  have pre: "Lifecycle_Start Background (?l\<lparr>hooks := take 1 (hooks ?l)\<rparr>) (0, []) =
      (None, \<lparr>hooks = [demo_A], numStarted = 1\<rparr>, (1, [StartCalled 0 Background]))"
    by (simp add: Lifecycle_Start_def demo_A_def)
  have f: "OnStart (hooks ?l ! 1) = Some (\<lambda>ctx w. (if w = 1 then Some (Plain ''start B'') else None, w + 2))"
    by (simp add: demo_B_def)
  have g: "(\<lambda>ctx w. (if w = 1 then Some (Plain ''start B'') else None, w + 2)) Background (1::nat) =
      (Some (Plain ''start B''), 3)" by simp
  from Start_failure_at_hook [OF k pre f g, of "WithTimeout Background 5" "[]"]
  show ?thesis
    by (simp add: start_calls_def stop_calls_def stop_effects_def stop_step_def Combine_def
        fromSlice_def List.map_filter_simps demo_A_def demo_B_def demo_C_def)
qed

lemma Start_range_all_ok:
  assumes "Lifecycle_Start ctx l (w, tr) = (None, l1, (w1, tr1))"
  shows "l1 = l\<lparr>numStarted := numStarted l + int (length (hooks l))\<rparr>"
    and "tr1 = tr @ start_calls ctx (hooks l) [0..<length (hooks l)]"
proof -
  obtain n1 where p: "Start_range ctx (hooks l) 0 (numStarted l) (w, tr) = (None, n1, (w1, tr1))"
    and l1: "l1 = l\<lparr>numStarted := n1\<rparr>"
    using assms by (auto simp: Lifecycle_Start_def split: prod.splits)
  from Start_range_ok [OF p] l1
  show "l1 = l\<lparr>numStarted := numStarted l + int (length (hooks l))\<rparr>"
    and "tr1 = tr @ start_calls ctx (hooks l) [0..<length (hooks l)]"
    by (simp_all add: start_calls_def)
qed

text \<open>
  C2. When every start action succeeds, \<^verbatim>\<open>Lifecycle.Start\<close> counts all hooks as started,
  and a following \<^verbatim>\<open>Lifecycle.Stop\<close> calls the stop actions of exactly the hooks that have
  one, from the last registered to the first: the call log holds these calls in that order,
  the state of the outside is what these stop actions make of it one after the other, the
  result combines the errors they returned, and \<^verbatim>\<open>numStarted\<close> is 0. No assumption is
  made on what the stop actions return: a step of the loop at hook \<open>k\<close> goes on with the
  counter at \<open>k\<close>, whether the stop action returned nil or an error.
\<close>

theorem Stop_reverse_order:
  assumes "numStarted l = 0"
    and "Lifecycle_Start ctx l (w, tr) = (None, l1, (w1, tr1))"
  shows "l1 = l\<lparr>numStarted := int (length (hooks l))\<rparr> \<and>
         Lifecycle_Stop ctx' l1 (w', tr') =
            Some (Combine (map Some
                    (snd (stop_effects ctx' (hooks l) (rev [0..<length (hooks l)]) w'))),
                  l\<lparr>numStarted := 0\<rparr>,
                  (fst (stop_effects ctx' (hooks l) (rev [0..<length (hooks l)]) w'),
                   tr' @ stop_calls ctx' (hooks l) (rev [0..<length (hooks l)]))) \<and>
         (\<forall>k<length (hooks l). \<forall>w0 tr0 errs.
            Stop_loop ctx' (hooks l) (int (Suc k)) (w0, tr0) errs =
              (case OnStop (hooks l ! k) of
                 None \<Rightarrow> Stop_loop ctx' (hooks l) (int k) (w0, tr0) errs
               | Some f \<Rightarrow>
                   Stop_loop ctx' (hooks l) (int k)
                     (snd (f ctx' w0), tr0 @ [StopCalled k ctx'])
                     (case fst (f ctx' w0) of None \<Rightarrow> errs | Some e \<Rightarrow> errs @ [e])))"
proof -
  have l1: "l1 = l\<lparr>numStarted := int (length (hooks l))\<rparr>"
    using Start_range_all_ok(1) [OF assms(2)] assms(1) by simp
  have stop: "Lifecycle_Stop ctx' l1 (w', tr') =
            Some (Combine (map Some
                    (snd (stop_effects ctx' (hooks l) (rev [0..<length (hooks l)]) w'))),
                  l\<lparr>numStarted := 0\<rparr>,
                  (fst (stop_effects ctx' (hooks l) (rev [0..<length (hooks l)]) w'),
                   tr' @ stop_calls ctx' (hooks l) (rev [0..<length (hooks l)])))"
    using Lifecycle_Stop_eq [of "length (hooks l)" l1 ctx' w' tr'] by (simp add: l1)
  have step: "Stop_loop ctx' (hooks l) (int (Suc k)) (w0, tr0) errs =
              (case OnStop (hooks l ! k) of
                 None \<Rightarrow> Stop_loop ctx' (hooks l) (int k) (w0, tr0) errs
               | Some f \<Rightarrow>
                   Stop_loop ctx' (hooks l) (int k)
                     (snd (f ctx' w0), tr0 @ [StopCalled k ctx'])
                     (case fst (f ctx' w0) of None \<Rightarrow> errs | Some e \<Rightarrow> errs @ [e]))"
    if "k < length (hooks l)" for k w0 tr0 errs
    using that by (rule Stop_loop_Suc)
  from l1 stop step show ?thesis by blast
qed

theorem Stop_reverse_order_witness:
  "Lifecycle_Stop Background \<lparr>hooks = [demo_A, demo_C, demo_A], numStarted = 3\<rparr> (7, []) =
      Some (Some (MultiError [Plain ''stop A'', Plain ''stop A'']),
            \<lparr>hooks = [demo_A, demo_C, demo_A], numStarted = 0\<rparr>,
            (127, [StopCalled 2 Background, StopCalled 1 Background, StopCalled 0 Background]))"
proof -
  let ?l = "\<lparr>hooks = [demo_A, demo_C, demo_A], numStarted = 0\<rparr>"
  have n: "numStarted ?l = 0" by simp
  have st: "Lifecycle_Start Background ?l (0, []) =
      (None, ?l\<lparr>numStarted := 3\<rparr>, (2, [StartCalled 0 Background, StartCalled 2 Background]))"
    by (simp add: Lifecycle_Start_def demo_A_def demo_C_def)
  have ev: "stop_calls Background (hooks ?l) (rev [0..<length (hooks ?l)]) =
      [StopCalled 2 Background, StopCalled 1 Background, StopCalled 0 Background]"
    by (simp add: stop_calls_def upt_rec demo_A_def demo_C_def)
  have ef: "stop_effects Background (hooks ?l) (rev [0..<length (hooks ?l)]) 7 =
      (127, [Plain ''stop A'', Plain ''stop A''])"
    by (simp add: stop_effects_def stop_step_def upt_rec demo_A_def demo_C_def)
  from Stop_reverse_order [OF n st, of Background 7 "[]", THEN conjunct2, THEN conjunct1]
  show ?thesis unfolding ev ef
    by (simp add: Combine_def fromSlice_def List.map_filter_simps)
qed

lemma Stop_loop_final:
  "Stop_loop ctx hs n s errs = Some (n', s', errs') \<Longrightarrow> n' \<le> 0 \<and> (0 \<le> n \<longrightarrow> n' = 0)"
proof (induction ctx hs n s errs rule: Stop_loop.induct)
  case (1 ctx hs n s errs)
  show ?case
  proof (cases "n > 0")
    case False
    with "1.prems" show ?thesis by (simp add: Stop_loop_done)
  next
    case True
    with "1.prems" have inr: "nat (n - 1) < length hs"
      by (subst (asm) Stop_loop.simps) (simp split: if_splits)
    show ?thesis
    proof (cases "OnStop (hs ! nat (n - 1))")
      case None
      with "1.prems" True inr have "Stop_loop ctx hs (n - 1) s errs = Some (n', s', errs')"
        by (subst (asm) Stop_loop.simps) simp
      from "1.IH"(1) [OF True inr None this] True show ?thesis by simp
    next
      case (Some f)
      with "1.prems" True inr
      have "Stop_loop ctx hs (n - 1) (snd (f ctx (fst s)), snd s @ [StopCalled (nat (n - 1)) ctx])
              (case fst (f ctx (fst s)) of None \<Rightarrow> errs | Some e \<Rightarrow> errs @ [e]) = Some (n', s', errs')"
        by (subst (asm) Stop_loop.simps) simp
      from "1.IH"(2) [OF True inr Some this] True show ?thesis by simp
    qed
  qed
qed

lemma Combine_Nil: "Combine [] = None"
  by (simp add: Combine_def fromSlice_def List.map_filter_simps)

text \<open>
  C4. \<^verbatim>\<open>Lifecycle.Stop\<close> is idempotent: after a call that returned, from any state of the
  lifecycle, a second call returns nil, calls nothing (the call log and the state of the
  outside are unchanged) and leaves the lifecycle as it is; \<^verbatim>\<open>numStarted\<close> is 0 after
  the first call when it was not negative before.
\<close>

theorem Stop_idempotent:
  assumes "Lifecycle_Stop ctx l s = Some (r, l', s')"
  shows "Lifecycle_Stop ctx2 l' s2 = Some (None, l', s2) \<and> (0 \<le> numStarted l \<longrightarrow> numStarted l' = 0)"
proof -
  obtain n' errs' where st: "Stop_loop ctx (hooks l) (numStarted l) s [] = Some (n', s', errs')"
    and l': "l' = l\<lparr>numStarted := n'\<rparr>"
    using assms by (auto simp: Lifecycle_Stop_def split: option.splits)
  from Stop_loop_final [OF st] have n': "n' \<le> 0" "0 \<le> numStarted l \<longrightarrow> n' = 0" by simp_all
  then show ?thesis
    by (simp add: Lifecycle_Stop_def l' Stop_loop_done Combine_Nil)
qed

theorem Stop_idempotent_witness:
  "Lifecycle_Stop Background \<lparr>hooks = [demo_A, demo_C], numStarted = 0\<rparr> (5::nat, []) =
     Some (None, \<lparr>hooks = [demo_A, demo_C], numStarted = 0\<rparr>, (5, []))"
proof -
  have "Lifecycle_Stop Background \<lparr>hooks = [demo_A, demo_C], numStarted = 2\<rparr> (0, []) =
     Some (Some (Plain ''stop A''), \<lparr>hooks = [demo_A, demo_C], numStarted = 0\<rparr>,
           (110, [StopCalled 1 Background, StopCalled 0 Background]))"
    by (simp add: Lifecycle_Stop_def Stop_loop.simps demo_A_def demo_C_def Combine_def fromSlice_def
        List.map_filter_simps)
  from Stop_idempotent [OF this, of Background "(5, [])"] show ?thesis by simp
qed

section \<open>Properties of the shutdown broadcast\<close>

lemma broadcast_range_eq:
  "broadcast_range sig chs u =
     (map (\<lambda>ch. case ch of None \<Rightarrow> Some sig | Some p \<Rightarrow> Some p) chs,
      u + length (filter (\<lambda>ch. ch \<noteq> None) chs))"
  by (induction chs arbitrary: u) (auto split: option.splits)

text \<open>
  C6. With \<open>N\<close> channels of which \<open>M\<close> hold a signal not yet received, \<^verbatim>\<open>broadcastSignal\<close>
  (a total function: it never blocks and visits every channel) puts the signal in each of
  the \<open>N - M\<close> empty channels, leaves the \<open>M\<close> full ones as they are, and returns nil
  exactly when \<open>M = 0\<close>; otherwise it returns the error that reports \<open>M\<close> out of \<open>N\<close>.
\<close>

theorem broadcastSignal_reports_unsent:
  "broadcastSignal sig app =
     (if length (filter (\<lambda>ch. ch \<noteq> None) (dones app)) = 0 then None
      else Some (Plain (''failed to send '' @ signal_String sig @ '' signal to '' @
                        decimal (length (filter (\<lambda>ch. ch \<noteq> None) (dones app))) @
                        '' out of '' @ decimal (length (dones app)) @ '' channels'')),
      app\<lparr>dones := map (\<lambda>ch. case ch of None \<Rightarrow> Some sig | Some p \<Rightarrow> Some p) (dones app)\<rparr>)"
  by (simp add: broadcastSignal_def broadcast_range_eq)

theorem broadcastSignal_reports_unsent_witness:
  "broadcastSignal SIGTERM (New_App\<lparr>dones := [None, Some SIGINT, None]\<rparr> :: nat App) =
     (Some (Plain ''failed to send terminated signal to 1 out of 3 channels''),
      New_App\<lparr>dones := [Some SIGTERM, Some SIGINT, Some SIGTERM]\<rparr>)"
  using broadcastSignal_reports_unsent [of SIGTERM "New_App\<lparr>dones := [None, Some SIGINT, None]\<rparr> :: nat App"]
  by (simp add: decimal.simps New_App_def)

text \<open>
  C10. \<^verbatim>\<open>shutdowner.Shutdown\<close> ignores its options: for every list of options it is
  the broadcast of \<^verbatim>\<open>SIGTERM\<close> to the channels the application has. Every empty channel
  gets \<^verbatim>\<open>SIGTERM\<close>, every full one keeps its signal, the result is nil when no channel
  was full and the error that reports how many were otherwise; two calls from the same state
  with different options give the same result and the same channels.
\<close>

theorem Shutdown_ignores_options:
  "Shutdown opts app =
     (if length (filter (\<lambda>ch. ch \<noteq> None) (dones app)) = 0 then None
      else Some (Plain (''failed to send terminated signal to '' @
                        decimal (length (filter (\<lambda>ch. ch \<noteq> None) (dones app))) @
                        '' out of '' @ decimal (length (dones app)) @ '' channels'')),
      app\<lparr>dones := map (\<lambda>ch. case ch of None \<Rightarrow> Some SIGTERM | Some p \<Rightarrow> Some p) (dones app)\<rparr>) \<and>
   Shutdown opts app = broadcastSignal SIGTERM app \<and>
   Shutdown opts app = Shutdown opts' app"
  by (simp add: Shutdown_def broadcastSignal_def broadcast_range_eq)

theorem Shutdown_ignores_options_witness:
  "Shutdown [] (New_App\<lparr>dones := [Some SIGINT, None, None, Some SIGTERM]\<rparr> :: nat App) =
     (Some (Plain ''failed to send terminated signal to 2 out of 4 channels''),
      New_App\<lparr>dones := [Some SIGINT, Some SIGTERM, Some SIGTERM, Some SIGTERM]\<rparr>) \<and>
   Shutdown [App_Done, \<lambda>a. a\<lparr>dones := []\<rparr>]
       (New_App\<lparr>dones := [Some SIGINT, None, None, Some SIGTERM]\<rparr> :: nat App) =
     (Some (Plain ''failed to send terminated signal to 2 out of 4 channels''),
      New_App\<lparr>dones := [Some SIGINT, Some SIGTERM, Some SIGTERM, Some SIGTERM]\<rparr>) \<and>
   Shutdown [App_Done] (New_App\<lparr>dones := [None, None]\<rparr> :: nat App) =
     (None, New_App\<lparr>dones := [Some SIGTERM, Some SIGTERM]\<rparr>)"
  using Shutdown_ignores_options [of "[]" "New_App\<lparr>dones := [Some SIGINT, None, None, Some SIGTERM]\<rparr> :: nat App"]
    Shutdown_ignores_options [of "[App_Done, \<lambda>a. a\<lparr>dones := []\<rparr>]"
      "New_App\<lparr>dones := [Some SIGINT, None, None, Some SIGTERM]\<rparr> :: nat App"]
    Shutdown_ignores_options [of "[App_Done]" "New_App\<lparr>dones := [None, None]\<rparr> :: nat App"]
  by (simp add: decimal.simps New_App_def)

section \<open>Properties of the application\<close>

lemma Lifecycle_Stop_calls:
  assumes "Lifecycle_Stop ctx l (w, tr) = Some (r, l', (w', tr'))"
  shows "tr' = tr @ stop_calls ctx (hooks l) (rev [0..<nat (numStarted l)])"
proof (cases "numStarted l \<le> 0")
  case True
  with assms show ?thesis
    by (auto simp: Lifecycle_Stop_def Stop_loop_done stop_calls_def split: option.splits)
next
  case False
  then have n: "numStarted l = int (nat (numStarted l))" by simp
  have le: "nat (numStarted l) \<le> length (hooks l)"
  proof (rule ccontr)
    assume "\<not> ?thesis"
    then have "length (hooks l) < nat (numStarted l)" by simp
    from Stop_loop_panic [OF this, of ctx "(w, tr)" "[]"] assms n show False
      by (simp add: Lifecycle_Stop_def)
  qed
  from Lifecycle_Stop_ok [OF le n, of ctx w tr] assms show ?thesis by auto
qed

lemma Start_range_bounds:
  "Start_range ctx hs i n env = (r, n1, env1) \<Longrightarrow> n \<le> n1 \<and> n1 \<le> n + int (length hs)"
proof (induction hs arbitrary: i n env)
  case Nil
  then show ?case by (cases env) auto
next
  case (Cons h hs)
  obtain w tr where e: "env = (w, tr)" by (cases env)
  show ?case
  proof (cases "OnStart h")
    case None
    with Cons.prems e have "Start_range ctx hs (Suc i) (n + 1) (w, tr) = (r, n1, env1)" by simp
    from Cons.IH [OF this] show ?thesis by simp
  next
    case (Some f)
    obtain r' w' where f: "f ctx w = (r', w')" by (cases "f ctx w")
    show ?thesis
    proof (cases r')
      case None
      with Cons.prems e Some f
      have "Start_range ctx hs (Suc i) (n + 1) (w', tr @ [StartCalled i ctx]) = (r, n1, env1)" by simp
      from Cons.IH [OF this] show ?thesis by simp
    next
      case (Some e')
      with Cons.prems e \<open>OnStart h = Some f\<close> f show ?thesis by simp
    qed
  qed
qed

lemma Lifecycle_Start_numStarted:
  assumes "Lifecycle_Start ctx l env = (r, l1, env1)"
  shows "hooks l1 = hooks l \<and> numStarted l \<le> numStarted l1 \<and>
         numStarted l1 \<le> numStarted l + int (length (hooks l))"
proof -
  obtain n1 where p: "Start_range ctx (hooks l) 0 (numStarted l) env = (r, n1, env1)"
    and l1: "l1 = l\<lparr>numStarted := n1\<rparr>"
    using assms by (auto simp: Lifecycle_Start_def split: prod.splits)
  from Start_range_bounds [OF p] l1 show ?thesis by simp
qed

text \<open>
  C3. When the construction error is nil and \<^verbatim>\<open>Lifecycle.Start\<close> fails with \<open>e\<close>,
  \<^verbatim>\<open>App.start\<close> runs \<^verbatim>\<open>Lifecycle.Stop\<close> on the state the failed start left. When the
  rollback returns nil, the result is \<open>e\<close> alone; when it returns \<open>stopErr\<close>, the result is
  the combined error whose members are those of \<open>e\<close> followed by those of \<open>stopErr\<close>.
  \<^verbatim>\<open>App.Start\<close> returns the same when the context does not end first, and on a lifecycle
  that began with \<^verbatim>\<open>numStarted = 0\<close> the rollback does not panic.
\<close>

theorem start_rollback_errors:
  assumes "err app = None"
    and "Lifecycle_Start ctx (lifecycle app) env = (Some e, l1, env1)"
  shows "start ctx (app, env) =
           (case Lifecycle_Stop ctx l1 env1 of
              None \<Rightarrow> None
            | Some (None, l2, env2) \<Rightarrow> Some (Some e, app\<lparr>lifecycle := l2\<rparr>, env2)
            | Some (Some stopErr, l2, env2) \<Rightarrow>
                Some (Some (MultiError (Errors e @ Errors stopErr)), app\<lparr>lifecycle := l2\<rparr>, env2)) \<and>
         App_Start None ctx (app, env) = start ctx (app, env) \<and>
         (numStarted (lifecycle app) = 0 \<longrightarrow> Lifecycle_Stop ctx l1 env1 \<noteq> None)"
proof -
  have A: "start ctx (app, env) =
           (case Lifecycle_Stop ctx l1 env1 of
              None \<Rightarrow> None
            | Some (None, l2, env2) \<Rightarrow> Some (Some e, app\<lparr>lifecycle := l2\<rparr>, env2)
            | Some (Some stopErr, l2, env2) \<Rightarrow>
                Some (Some (MultiError (Errors e @ Errors stopErr)), app\<lparr>lifecycle := l2\<rparr>, env2))"
    using assms by (simp add: start_def multierr_Append_def split: option.splits prod.splits)
  have B: "App_Start None ctx (app, env) = start ctx (app, env)"
    by (cases "start ctx (app, env)") (auto simp: App_Start_def withTimeout_def)
  have C: "Lifecycle_Stop ctx l1 env1 \<noteq> None" if "numStarted (lifecycle app) = 0"
  proof -
    from Lifecycle_Start_numStarted [OF assms(2)] that
    have h: "hooks l1 = hooks (lifecycle app)" "0 \<le> numStarted l1"
      "nat (numStarted l1) \<le> length (hooks l1)" by auto
    obtain w tr where "env1 = (w, tr)" by (cases env1)
    with Lifecycle_Stop_ok [OF h(3), of ctx w tr] h(2) show ?thesis by auto
  qed
  from A B C show ?thesis by blast
qed

lemma demo_app_eq:
  "demo_app =
     (\<lparr>err = None, lifecycle = \<lparr>hooks = [demo_A, demo_B], numStarted = 0\<rparr>, provides = [],
       invokes = [demo_register], startTimeout = 10, stopTimeout = 20, errorHooks = [],
       dones = []\<rparr>, (0, []))"
  by (simp add: demo_app_def New_def New_provided_def New_App_def builtin_provides_def demo_dig_def
      executeInvokes_def demo_register_def Append_def Lifecycle_New_def demo_A_def demo_B_def)

lemma demo_start:
  "Lifecycle_Start ctx \<lparr>hooks = [demo_A, demo_B], numStarted = 0\<rparr> (0, []) =
     (Some (Plain ''start B''), \<lparr>hooks = [demo_A, demo_B], numStarted = 1\<rparr>,
      (3, [StartCalled 0 ctx, StartCalled 1 ctx]))"
  by (simp add: Lifecycle_Start_def demo_A_def demo_B_def)

lemma demo_stop:
  "Lifecycle_Stop ctx \<lparr>hooks = [demo_A, demo_B], numStarted = 1\<rparr> (3, tr) =
     Some (Some (Plain ''stop A''), \<lparr>hooks = [demo_A, demo_B], numStarted = 0\<rparr>,
           (13, tr @ [StopCalled 0 ctx]))"
  by (simp add: Lifecycle_Stop_def Stop_loop.simps demo_A_def demo_B_def Combine_def fromSlice_def
      List.map_filter_simps)

theorem start_rollback_errors_witness:
  "start Background demo_app =
     Some (Some (MultiError [Plain ''start B'', Plain ''stop A'']),
           (fst demo_app)\<lparr>lifecycle := \<lparr>hooks = [demo_A, demo_B], numStarted = 0\<rparr>\<rparr>,
           (13, [StartCalled 0 Background, StartCalled 1 Background, StopCalled 0 Background]))"
  using start_rollback_errors [of "fst demo_app" Background "snd demo_app" "Plain ''start B''"
      "\<lparr>hooks = [demo_A, demo_B], numStarted = 1\<rparr>"
      "(3, [StartCalled 0 Background, StartCalled 1 Background])"]
  by (simp add: demo_app_eq demo_start demo_stop)

text \<open>
  C7, as stated, fails: \<^verbatim>\<open>App.start\<close> hands the rollback the context it was given.
  In the run of the example application the start context is bounded by the start timeout
  10, hook B fails to start, and the stop action of hook A is called with that same
  context, while the stop timeout is 20.
\<close>

theorem rollback_context_counterexample:
  "run None None 0 demo_app =
     FailedToStart (MultiError [Plain ''start B'', Plain ''stop A''])
       ((fst demo_app)\<lparr>lifecycle := \<lparr>hooks = [demo_A, demo_B], numStarted = 0\<rparr>\<rparr>,
        (13, [StartCalled 0 (WithTimeout Background 10), StartCalled 1 (WithTimeout Background 10),
              StopCalled 0 (WithTimeout Background 10)])) \<and>
   startTimeout (fst demo_app) = 10 \<and> stopTimeout (fst demo_app) = 20"
  by (simp add: run_def Let_def App_Start_def withTimeout_def start_def demo_app_eq demo_start demo_stop
      multierr_Append_def)

text \<open>
  C7, amended. When \<^verbatim>\<open>Lifecycle.Start\<close> fails during \<^verbatim>\<open>App.start\<close>, the rollback is
  \<^verbatim>\<open>Lifecycle.Stop\<close> called with the very context \<^verbatim>\<open>start\<close> received: every stop action
  of the rollback is called with it, and the configured stop timeout plays no part (any
  other value of it gives the same result and the same calls).
\<close>

theorem rollback_in_start_context:
  assumes "err app = None"
    and "Lifecycle_Start ctx (lifecycle app) env = (Some e, l1, (w1, tr1))"
    and "start ctx (app, env) = Some (r, app', (w', tr'))"
  shows "tr' = tr1 @ stop_calls ctx (hooks (lifecycle app)) (rev [0..<nat (numStarted l1)]) \<and>
         start ctx (app\<lparr>stopTimeout := t\<rparr>, env) = Some (r, app'\<lparr>stopTimeout := t\<rparr>, (w', tr'))"
proof -
  from assms obtain stopErr l2 where
    stop: "Lifecycle_Stop ctx l1 (w1, tr1) = Some (stopErr, l2, (w', tr'))"
    and r: "r = multierr_Append (Some e) stopErr" and app': "app' = app\<lparr>lifecycle := l2\<rparr>"
    by (auto simp: start_def multierr_Append_def split: option.splits prod.splits)
  have h: "hooks l1 = hooks (lifecycle app)"
    using Lifecycle_Start_numStarted [OF assms(2)] by simp
  have A: "tr' = tr1 @ stop_calls ctx (hooks (lifecycle app)) (rev [0..<nat (numStarted l1)])"
    using Lifecycle_Stop_calls [OF stop] h by simp
  have B: "start ctx (app\<lparr>stopTimeout := t\<rparr>, env) = Some (r, app'\<lparr>stopTimeout := t\<rparr>, (w', tr'))"
    using assms(1,2) stop r app'
    by (auto simp: start_def multierr_Append_def split: option.splits)
  from A B show ?thesis by blast
qed

theorem rollback_in_start_context_witness:
  "start (WithTimeout Background 10) ((fst demo_app)\<lparr>stopTimeout := 99\<rparr>, snd demo_app) =
     Some (Some (MultiError [Plain ''start B'', Plain ''stop A'']),
           (fst demo_app)\<lparr>lifecycle := \<lparr>hooks = [demo_A, demo_B], numStarted = 0\<rparr>, stopTimeout := 99\<rparr>,
           (13, [StartCalled 0 (WithTimeout Background 10), StartCalled 1 (WithTimeout Background 10),
                 StopCalled 0 (WithTimeout Background 10)]))"
proof -
  let ?c = "WithTimeout Background 10"
  have a: "err (fst demo_app) = None" by (simp add: demo_app_eq)
  have b: "Lifecycle_Start ?c (lifecycle (fst demo_app)) (snd demo_app) =
      (Some (Plain ''start B''), \<lparr>hooks = [demo_A, demo_B], numStarted = 1\<rparr>,
       (3, [StartCalled 0 ?c, StartCalled 1 ?c]))"
    by (simp add: demo_app_eq demo_start)
  have c: "start ?c (fst demo_app, snd demo_app) =
      Some (Some (MultiError [Plain ''start B'', Plain ''stop A'']),
            (fst demo_app)\<lparr>lifecycle := \<lparr>hooks = [demo_A, demo_B], numStarted = 0\<rparr>\<rparr>,
            (13, [StartCalled 0 ?c, StartCalled 1 ?c, StopCalled 0 ?c]))"
    by (simp add: start_def demo_app_eq demo_start demo_stop multierr_Append_def)
  from rollback_in_start_context [OF a b c, of 99] show ?thesis
    by (simp add: demo_app_eq)
qed

section \<open>Properties of construction\<close>

lemma fold_preserves:
  assumes "\<And>x a. x \<in> set xs \<Longrightarrow> P a \<Longrightarrow> P (f x a)" and "P a"
  shows "P (fold f xs a)"
  using assms by (induction xs arbitrary: a) auto

lemma Option_apply_numStarted:
  "numStarted (lifecycle app) = 0 \<Longrightarrow> numStarted (lifecycle (Option_apply opt app)) = 0"
proof (induction opt app rule: Option_apply.induct)
  case (4 og app)
  show ?case
    unfolding Option_apply.simps
    by (rule fold_preserves [where P = "\<lambda>a. numStarted (lifecycle a) = 0"])
       (use 4 in auto)
qed (simp_all add: Lifecycle_New_def)

lemma provide_lifecycle:
  "lifecycle (fst (provide c s)) = lifecycle (fst s) \<and> snd (snd (provide c s)) = snd (snd s)"
proof -
  obtain app w tr where s: "s = (app, (w, tr))" by (cases s) auto
  show ?thesis unfolding s
    by (cases c) (auto split: prod.splits option.splits)
qed

lemma fold_provide_lifecycle:
  "lifecycle (fst (fold provide cs s)) = lifecycle (fst s) \<and>
   snd (snd (fold provide cs s)) = snd (snd s)"
  by (induction cs arbitrary: s) (simp_all add: provide_lifecycle)

lemma fold_Append_numStarted:
  "numStarted (fold (\<lambda>(c, h). Append c h) hs l) = numStarted l"
  by (induction hs arbitrary: l) (auto simp: Append_def)

lemma executeInvokes_range_numStarted:
  "executeInvokes_range fns l w = (r, l', w') \<Longrightarrow> numStarted l' = numStarted l"
proof (induction fns arbitrary: l w)
  case Nil
  then show ?case by simp
next
  case (Cons fn fns)
  show ?case
  proof (cases fn)
    case (OptionI v)
    with Cons.prems show ?thesis by auto
  next
    case (FuncI f)
    obtain r0 hs w0 where f: "f w = (r0, hs, w0)" by (cases "f w")
    show ?thesis
    proof (cases r0)
      case None
      with Cons.prems FuncI f
      have "executeInvokes_range fns (fold (\<lambda>(c, h). Append c h) hs l) w0 = (r, l', w')" by simp
      from Cons.IH [OF this] show ?thesis by (simp add: fold_Append_numStarted)
    next
      case (Some e)
      with Cons.prems FuncI f show ?thesis by (auto simp: fold_Append_numStarted)
    qed
  qed
qed

lemma New_provided_numStarted: "numStarted (lifecycle (fst (New_provided d opts w))) = 0"
proof -
  have "numStarted (lifecycle (fold Option_apply opts (New_App :: 'a App))) = 0"
    by (rule fold_preserves [where P = "\<lambda>a. numStarted (lifecycle a) = 0"])
       (simp_all add: Option_apply_numStarted New_App_def Lifecycle_New_def)
  then show ?thesis
    by (simp add: New_provided_def Let_def fold_provide_lifecycle)
qed

lemma New_numStarted: "numStarted (lifecycle (fst (New d opts w))) = 0"
proof (cases "err (fst (New_provided d opts w)) \<noteq> None")
  case True
  then show ?thesis by (simp add: New_def New_provided_numStarted)
next
  case False
  obtain app w1 tr1 where s: "New_provided d opts w = (app, (w1, tr1))"
    by (cases "New_provided d opts w") auto
  obtain r l' w' where e: "executeInvokes_range (invokes app) (lifecycle app) w1 = (r, l', w')"
    by (cases "executeInvokes_range (invokes app) (lifecycle app) w1") auto
  from executeInvokes_range_numStarted [OF e] New_provided_numStarted [of d opts w] s
  have "numStarted l' = 0" by simp
  with False s e show ?thesis
    by (cases r) (simp_all add: New_def executeInvokes_def)
qed

text \<open>The invariant: while the construction error is set no hook counts as started.\<close>

lemma start_err_set:
  "err app = Some e \<Longrightarrow> start ctx (app, env) = Some (Some e, app, env)"
  by (simp add: start_def)

lemma start_err_None:
  "err app = None \<Longrightarrow> start ctx (app, env) = Some (r, app', env') \<Longrightarrow> err app' = None"
  by (auto simp: start_def split: prod.splits option.splits)

lemma App_Stop_err:
  assumes "App_Stop expired ctx (app, env) = Some (r, app', env')"
  shows "err app' = err app \<and> (numStarted (lifecycle app) = 0 \<longrightarrow> numStarted (lifecycle app') = 0)"
proof -
  from assms obtain r0 l where st: "Lifecycle_Stop ctx (lifecycle app) env = Some (r0, l, env')"
    and app': "app' = app\<lparr>lifecycle := l\<rparr>"
    by (auto simp: App_Stop_def withTimeout_def split: option.splits)
  from st have "numStarted (lifecycle app) = 0 \<longrightarrow> numStarted l = 0"
    by (auto simp: Lifecycle_Stop_def Stop_loop_done split: option.splits)
  with app' show ?thesis by simp
qed

lemma exec_call_invariant:
  assumes "exec_call c (app, env) = Some (app', env')"
    and "err app \<noteq> None \<longrightarrow> numStarted (lifecycle app) = 0"
  shows "err app' = err app" and "err app' \<noteq> None \<longrightarrow> numStarted (lifecycle app') = 0"
proof -
  have "err app' = err app \<and> (err app' \<noteq> None \<longrightarrow> numStarted (lifecycle app') = 0)"
  proof (cases c)
    case (CallStart expired ctx)
    with assms(1) obtain r where st: "start ctx (app, env) = Some (r, app', env')"
      by (auto simp: App_Start_def withTimeout_def split: option.splits)
    show ?thesis
    proof (cases "err app")
      case None
      from start_err_None [OF None st] None show ?thesis by simp
    next
      case (Some e)
      from start_err_set [OF Some, of ctx env] st assms(2) Some show ?thesis by simp
    qed
  next
    case (CallStop expired ctx)
    with assms(1) obtain r where "App_Stop expired ctx (app, env) = Some (r, app', env')" by auto
    from App_Stop_err [OF this] assms(2) show ?thesis by auto
  next
    case CallDone
    with assms show ?thesis by (auto simp: App_Done_def)
  next
    case CallShutdown
    with assms show ?thesis
      by (auto simp: Shutdown_def broadcastSignal_def split: prod.splits)
  next
    case (CallAppend cl hook)
    with assms show ?thesis by (auto simp: Append_def)
  next
    case (Notify sig)
    with assms show ?thesis by (auto simp: broadcastSignal_def split: prod.splits)
  next
    case (Receive i)
    with assms show ?thesis by auto
  next
    case (Outside f)
    with assms show ?thesis by (cases env) auto
  qed
  then show "err app' = err app"
    and "err app' \<noteq> None \<longrightarrow> numStarted (lifecycle app') = 0" by simp_all
qed

lemma exec_calls_invariant:
  "exec_calls cs s = Some s' \<Longrightarrow>
   err (fst s) \<noteq> None \<longrightarrow> numStarted (lifecycle (fst s)) = 0 \<Longrightarrow>
   err (fst s') \<noteq> None \<longrightarrow> numStarted (lifecycle (fst s')) = 0"
proof (induction cs arbitrary: s)
  case Nil
  then show ?case by simp
next
  case (Cons c cs)
  from Cons.prems(1) obtain s1 where c: "exec_call c s = Some s1" and cs: "exec_calls cs s1 = Some s'"
    by (auto split: option.splits)
  obtain app env app1 env1 where s: "s = (app, env)" "s1 = (app1, env1)"
    by (cases s, cases s1) auto
  from exec_call_invariant(2) [OF c [unfolded s]] Cons.prems(2) s
  have "err (fst s1) \<noteq> None \<longrightarrow> numStarted (lifecycle (fst s1)) = 0" by simp
  from Cons.IH [OF cs this] show ?case .
qed

text \<open>
  C5. Take an application as \<^verbatim>\<open>New\<close> returns it, after any sequence of the exported
  calls \<^verbatim>\<open>Start\<close>, \<^verbatim>\<open>Stop\<close>, \<^verbatim>\<open>Done\<close> and \<^verbatim>\<open>Shutdown\<close>. When its construction
  error is set, \<^verbatim>\<open>start\<close> returns that error at once and \<^verbatim>\<open>Start\<close> returns it (or the
  error of the context when that ends first), \<^verbatim>\<open>Stop\<close> returns nil (or the error of the
  context), and none of them calls a hook action: the application, the state of the outside
  and the call log are unchanged.
\<close>

theorem construction_error_blocks:
  assumes "exec_calls cs (New d opts w0) = Some (app, env)"
    and "err app = Some e"
  shows "start ctx (app, env) = Some (Some e, app, env) \<and>
         App_Start expired ctx (app, env) =
           Some (case expired of None \<Rightarrow> Some e | Some ce \<Rightarrow> Some ce, app, env) \<and>
         App_Stop expired ctx (app, env) = Some (expired, app, env)"
proof -
  have n: "numStarted (lifecycle app) = 0"
    using exec_calls_invariant [OF assms(1)] New_numStarted [of d opts w0] assms(2) by simp
  have A: "start ctx (app, env) = Some (Some e, app, env)"
    using assms(2) by (rule start_err_set)
  have B: "App_Start expired ctx (app, env) =
           Some (case expired of None \<Rightarrow> Some e | Some ce \<Rightarrow> Some ce, app, env)"
    by (simp add: App_Start_def withTimeout_def A split: option.splits)
  have "Lifecycle_Stop ctx (lifecycle app) env = Some (None, lifecycle app, env)"
    using n by (simp add: Lifecycle_Stop_def Stop_loop_done Combine_Nil)
  then have C: "App_Stop expired ctx (app, env) = Some (expired, app, env)"
    by (simp add: App_Stop_def withTimeout_def split: option.splits)
  from A B C show ?thesis by blast
qed


lemma demo_failed_app:
  "New demo_dig [Invoke [demo_register, demo_failing]] 0 =
     (\<lparr>err = Some (Plain ''invoke failed''),
       lifecycle = \<lparr>hooks = [demo_A, demo_B], numStarted = 0\<rparr>, provides = [],
       invokes = [demo_register, demo_failing], startTimeout = DefaultTimeout,
       stopTimeout = DefaultTimeout, errorHooks = [], dones = []\<rparr>, (0, []))"
  by (simp add: New_def New_provided_def New_App_def builtin_provides_def demo_dig_def
      executeInvokes_def demo_register_def demo_failing_def Append_def Lifecycle_New_def
      demo_A_def demo_B_def)

theorem construction_error_blocks_witness:
  "App_Start None Background
     (\<lparr>err = Some (Plain ''invoke failed''),
       lifecycle = \<lparr>hooks = [demo_A, demo_B], numStarted = 0\<rparr>, provides = [],
       invokes = [demo_register, demo_failing], startTimeout = DefaultTimeout,
       stopTimeout = DefaultTimeout, errorHooks = [], dones = [None]\<rparr>, (0, [])) =
     Some (Some (Plain ''invoke failed''),
       \<lparr>err = Some (Plain ''invoke failed''),
        lifecycle = \<lparr>hooks = [demo_A, demo_B], numStarted = 0\<rparr>, provides = [],
        invokes = [demo_register, demo_failing], startTimeout = DefaultTimeout,
        stopTimeout = DefaultTimeout, errorHooks = [], dones = [None]\<rparr>, (0, [])) \<and>
   App_Stop None Background
     (\<lparr>err = Some (Plain ''invoke failed''),
       lifecycle = \<lparr>hooks = [demo_A, demo_B], numStarted = 0\<rparr>, provides = [],
       invokes = [demo_register, demo_failing], startTimeout = DefaultTimeout,
       stopTimeout = DefaultTimeout, errorHooks = [], dones = [None]\<rparr>, (0, [])) =
     Some (None,
       \<lparr>err = Some (Plain ''invoke failed''),
        lifecycle = \<lparr>hooks = [demo_A, demo_B], numStarted = 0\<rparr>, provides = [],
        invokes = [demo_register, demo_failing], startTimeout = DefaultTimeout,
        stopTimeout = DefaultTimeout, errorHooks = [], dones = [None]\<rparr>, (0, []))"
proof -
  let ?app = "\<lparr>err = Some (Plain ''invoke failed''),
       lifecycle = \<lparr>hooks = [demo_A, demo_B], numStarted = 0\<rparr>, provides = [],
       invokes = [demo_register, demo_failing], startTimeout = DefaultTimeout,
       stopTimeout = DefaultTimeout, errorHooks = [], dones = [None]\<rparr>"
  have calls: "exec_calls [CallStart None Background, CallDone, CallStop None (WithTimeout Background 3)]
      (New demo_dig [Invoke [demo_register, demo_failing]] 0) = Some (?app, (0, []))"
    by (simp add: demo_failed_app App_Start_def App_Stop_def withTimeout_def start_def App_Done_def
        Lifecycle_Stop_def Stop_loop_done Combine_Nil)
  have e: "err ?app = Some (Plain ''invoke failed'')" by simp
  from construction_error_blocks [OF calls e, of Background None] show ?thesis by simp
qed

section \<open>Properties of the error handlers and of the construction error\<close>

lemma fold_Option_apply_errorHooks:
  assumes "\<And>x a. x \<in> set og \<Longrightarrow> errorHooks (Option_apply x a) = errorHooks a @ registered_handlers x"
  shows "errorHooks (fold Option_apply og app) = errorHooks app @ concat (map registered_handlers og)"
  using assms by (induction og arbitrary: app) auto

lemma Option_apply_errorHooks:
  "errorHooks (Option_apply opt app) = errorHooks app @ registered_handlers opt"
proof (induction opt app rule: Option_apply.induct)
  case (4 og app)
  show ?case
    unfolding Option_apply.simps registered_handlers.simps
    by (rule fold_Option_apply_errorHooks) (use 4 in auto)
qed simp_all

lemma provide_errorHooks: "errorHooks (fst (provide c s)) = errorHooks (fst s)"
proof -
  obtain app w tr where s: "s = (app, (w, tr))" by (cases s) auto
  show ?thesis unfolding s
    by (cases c) (auto split: prod.splits option.splits)
qed

lemma fold_provide_errorHooks: "errorHooks (fst (fold provide cs s)) = errorHooks (fst s)"
  by (induction cs arbitrary: s) (simp_all add: provide_errorHooks)

lemma New_provided_errorHooks:
  "errorHooks (fst (New_provided d opts w)) = concat (map registered_handlers opts)"
proof -
  have "errorHooks (fold Option_apply opts (New_App :: 'a App)) =
      errorHooks (New_App :: 'a App) @ concat (map registered_handlers opts)"
    by (rule fold_Option_apply_errorHooks) (rule Option_apply_errorHooks)
  then show ?thesis
    by (simp add: New_provided_def Let_def fold_provide_errorHooks New_App_def)
qed

lemma New_provided_calls: "snd (snd (New_provided d opts w)) = []"
  by (simp add: New_provided_def Let_def fold_provide_lifecycle)

lemma HandleError_eq:
  "HandleError ehs i e (w, tr) =
     (fold (\<lambda>eh. eh e) ehs w, tr @ map (\<lambda>j. ErrorHandled j e) [i..<i + length ehs])"
proof (induction ehs arbitrary: i w tr)
  case Nil
  then show ?case by simp
next
  case (Cons eh ehs)
  have "[i..<i + length (eh # ehs)] = i # [Suc i..<Suc i + length ehs]"
    by (simp add: upt_eq_Cons_conv del: upt_Suc)
  then show ?case using Cons.IH [of "Suc i"] by simp
qed

lemma Start_range_calls:
  "Start_range ctx hs i n (w, tr) = (r, n', (w', tr')) \<Longrightarrow>
     \<exists>evs. tr' = tr @ evs \<and> (\<forall>ev\<in>set evs. \<exists>j. ev = StartCalled j ctx)"
proof (induction hs arbitrary: i n w tr)
  case Nil
  then show ?case by simp
next
  case (Cons h hs)
  show ?case
  proof (cases "OnStart h")
    case None
    with Cons.prems have "Start_range ctx hs (Suc i) (n + 1) (w, tr) = (r, n', (w', tr'))" by simp
    from Cons.IH [OF this] show ?thesis .
  next
    case (Some f)
    obtain r0 w0 where f: "f ctx w = (r0, w0)" by (cases "f ctx w")
    show ?thesis
    proof (cases r0)
      case None
      with Cons.prems Some f
      have "Start_range ctx hs (Suc i) (n + 1) (w0, tr @ [StartCalled i ctx]) = (r, n', (w', tr'))"
        by simp
      from Cons.IH [OF this] obtain evs where
        "tr' = (tr @ [StartCalled i ctx]) @ evs" "\<forall>ev\<in>set evs. \<exists>j. ev = StartCalled j ctx" by blast
      then have "tr' = tr @ (StartCalled i ctx # evs) \<and>
          (\<forall>ev\<in>set (StartCalled i ctx # evs). \<exists>j. ev = StartCalled j ctx)" by simp
      then show ?thesis by blast
    next
      case (Some e)
      with Cons.prems \<open>OnStart h = Some f\<close> f
      have "tr' = tr @ [StartCalled i ctx] \<and> (\<forall>ev\<in>set [StartCalled i ctx]. \<exists>j. ev = StartCalled j ctx)"
        by simp
      then show ?thesis by blast
    qed
  qed
qed

lemma start_calls_no_handler:
  assumes "start ctx (a, (w0, tr0)) = Some (r, a', (w1, tr1))"
  shows "\<exists>evs. tr1 = tr0 @ evs \<and> (\<forall>i x. ErrorHandled i x \<notin> set evs)"
proof (cases "err a")
  case (Some e)
  with assms have "tr1 = tr0 @ []" by (simp add: start_def)
  then show ?thesis by (intro exI [of _ "[]"]) simp
next
  case None
  obtain r0 l1 wa tra where ls: "Lifecycle_Start ctx (lifecycle a) (w0, tr0) = (r0, l1, (wa, tra))"
    by (cases "Lifecycle_Start ctx (lifecycle a) (w0, tr0)") auto
  then obtain n1 where "Start_range ctx (hooks (lifecycle a)) 0 (numStarted (lifecycle a)) (w0, tr0)
      = (r0, n1, (wa, tra))"
    by (auto simp: Lifecycle_Start_def split: prod.splits)
  from Start_range_calls [OF this] obtain evs where
    evs: "tra = tr0 @ evs" "\<forall>ev\<in>set evs. \<exists>j. ev = StartCalled j ctx" by blast
  show ?thesis
  proof (cases r0)
    case None
    with assms \<open>err a = None\<close> ls have "tr1 = tra" by (simp add: start_def)
    with evs show ?thesis by (intro exI [of _ evs]) auto
  next
    case (Some e)
    with assms \<open>err a = None\<close> ls obtain rs l2 where
      "Lifecycle_Stop ctx l1 (wa, tra) = Some (rs, l2, (w1, tr1))"
      by (auto simp: start_def split: option.splits)
    from Lifecycle_Stop_calls [OF this]
    have "tr1 = tr0 @ (evs @ stop_calls ctx (hooks l1) (rev [0..<nat (numStarted l1)]))"
      using evs(1) by simp
    moreover have "\<forall>i x. ErrorHandled i x
        \<notin> set (evs @ stop_calls ctx (hooks l1) (rev [0..<nat (numStarted l1)]))"
      using evs(2) by (auto simp: stop_calls_def)
    ultimately show ?thesis by blast
  qed
qed

lemma demo_callers:
  "demo_A\<lparr>caller := ''A''\<rparr> = demo_A" "demo_B\<lparr>caller := ''B''\<rparr> = demo_B"
  by (simp_all add: demo_A_def demo_B_def)

text \<open>
  C8, as stated, fails. An application with a registered error handler whose construction
  fails at an \<^verbatim>\<open>Error\<close> option, or at a provide, comes back from \<^verbatim>\<open>New\<close> with the
  construction error set and no handler called (the counter is still 0 and the call log
  is empty); and when \<^verbatim>\<open>Start\<close> fails, the log holds the hook calls only.
\<close>

theorem error_hooks_only_on_invoke_failure_counterexample:
  "New demo_dig [ErrorHook [demo_handler], Error [Some (Plain ''bad option'')]] 0 =
     (New_App\<lparr>err := Some (Plain ''bad option''), errorHooks := [demo_handler]\<rparr>, (0, [])) \<and>
   New demo_dig [ErrorHook [demo_handler], Provide [OptionC ''fx.Invoke()'']] 0 =
     (New_App\<lparr>err := Some (Plain
        ''fx.Option should be passed to fx.New directly, not to fx.Provide: fx.Provide received fx.Invoke()''),
        provides := [OptionC ''fx.Invoke()''], errorHooks := [demo_handler]\<rparr>, (0, [])) \<and>
   App_Start None Background (New demo_dig [ErrorHook [demo_handler], Invoke [demo_register]] 0) =
     Some (Some (MultiError [Plain ''start B'', Plain ''stop A'']),
           New_App\<lparr>lifecycle := \<lparr>hooks = [demo_A, demo_B], numStarted = 0\<rparr>,
                    invokes := [demo_register], errorHooks := [demo_handler]\<rparr>,
           (13, [StartCalled 0 Background, StartCalled 1 Background, StopCalled 0 Background]))"
  by (simp add: New_def New_provided_def New_App_def builtin_provides_def demo_dig_def
      executeInvokes_def demo_register_def Append_def Lifecycle_New_def
      Combine_def fromSlice_def List.map_filter_simps multierr_Append_def
      App_Start_def withTimeout_def start_def demo_callers demo_start demo_stop)


lemma executeInvokes_keeps:
  assumes "executeInvokes s = (r, app, (w', tr))"
  shows "errorHooks app = errorHooks (fst s) \<and> tr = snd (snd s) \<and> err app = err (fst s)"
  using assms by (auto simp: executeInvokes_def split: prod.splits)

text \<open>
  C8, amended. The error handlers are called on invoke failures: when the options and the
  provides leave the construction error nil and an invocation fails with \<open>e\<close>, \<^verbatim>\<open>New\<close>
  calls every registered handler exactly once, in the order of registration, with \<open>e\<close>
  (wrapped with the graph when dig can visualize it). When the options or the provides set
  the construction error, \<^verbatim>\<open>New\<close> calls no handler, and \<^verbatim>\<open>App.start\<close> never calls one.
\<close>

theorem error_hooks_on_invoke_failure:
  "(err (fst (New_provided d opts w)) = None \<and>
    executeInvokes (New_provided d opts w) = (Some e, app, (w', tr)) \<and>
    e' = (if CanVisualizeError d e then ErrorWithGraph (Visualize d w' e) e else e) \<longrightarrow>
      New d opts w =
        (app\<lparr>err := Some e\<rparr>,
         (fold (\<lambda>eh. eh e') (errorHooks app) w',
          map (\<lambda>i. ErrorHandled i e') [0..<length (errorHooks app)])) \<and>
      errorHooks app = concat (map registered_handlers opts)) \<and>
   (err (fst (New_provided d opts w)) \<noteq> None \<longrightarrow>
      New d opts w = New_provided d opts w \<and> snd (snd (New d opts w)) = []) \<and>
   (start ctx (a, (w0, tr0)) = Some (r, a', (w1, tr1)) \<longrightarrow>
      (\<exists>evs. tr1 = tr0 @ evs \<and> (\<forall>i x. ErrorHandled i x \<notin> set evs)))"
proof (intro conjI impI)
  assume h: "err (fst (New_provided d opts w)) = None \<and>
    executeInvokes (New_provided d opts w) = (Some e, app, (w', tr)) \<and>
    e' = (if CanVisualizeError d e then ErrorWithGraph (Visualize d w' e) e else e)"
  from executeInvokes_keeps [of "New_provided d opts w" "Some e" app w' tr] h
  have k: "errorHooks app = errorHooks (fst (New_provided d opts w))" "tr = []"
    by (simp_all add: New_provided_calls)
  show "errorHooks app = concat (map registered_handlers opts)"
    using k(1) by (simp add: New_provided_errorHooks)
  show "New d opts w =
        (app\<lparr>err := Some e\<rparr>,
         (fold (\<lambda>eh. eh e') (errorHooks app) w',
          map (\<lambda>i. ErrorHandled i e') [0..<length (errorHooks app)]))"
    using h k(2) by (simp add: New_def HandleError_eq)
next
  assume "err (fst (New_provided d opts w)) \<noteq> None"
  then show "New d opts w = New_provided d opts w" "snd (snd (New d opts w)) = []"
    by (simp_all add: New_def New_provided_calls)
next
  assume "start ctx (a, (w0, tr0)) = Some (r, a', (w1, tr1))"
  then show "\<exists>evs. tr1 = tr0 @ evs \<and> (\<forall>i x. ErrorHandled i x \<notin> set evs)"
    by (rule start_calls_no_handler)
qed

lemma demo_failed_provided:
  "New_provided demo_dig
     [ErrorHook [demo_handler], Options [ErrorHook [demo_handler2]],
      Invoke [demo_register, demo_failing]] 0 =
     (New_App\<lparr>invokes := [demo_register, demo_failing],
              errorHooks := [demo_handler, demo_handler2]\<rparr>, (0, []))"
  by (simp add: New_provided_def New_App_def builtin_provides_def demo_dig_def)

theorem error_hooks_on_invoke_failure_witness:
  "New demo_dig
     [ErrorHook [demo_handler], Options [ErrorHook [demo_handler2]],
      Invoke [demo_register, demo_failing]] 0 =
     (New_App\<lparr>err := Some (Plain ''invoke failed''),
              lifecycle := \<lparr>hooks = [demo_A, demo_B], numStarted = 0\<rparr>,
              invokes := [demo_register, demo_failing],
              errorHooks := [demo_handler, demo_handler2]\<rparr>,
      (2000, [ErrorHandled 0 (Plain ''invoke failed''), ErrorHandled 1 (Plain ''invoke failed'')]))"
proof -
  let ?opts = "[ErrorHook [demo_handler], Options [ErrorHook [demo_handler2]],
      Invoke [demo_register, demo_failing]]"
  let ?app = "New_App\<lparr>lifecycle := \<lparr>hooks = [demo_A, demo_B], numStarted = 0\<rparr>,
              invokes := [demo_register, demo_failing],
              errorHooks := [demo_handler, demo_handler2]\<rparr> :: nat App"
  have a: "err (fst (New_provided demo_dig ?opts 0)) = None"
    by (simp add: demo_failed_provided New_App_def)
  have b: "executeInvokes (New_provided demo_dig ?opts 0) = (Some (Plain ''invoke failed''), ?app, (0, []))"
    by (simp only: demo_failed_provided)
       (simp add: executeInvokes_def New_App_def demo_register_def
        demo_failing_def Append_def Lifecycle_New_def demo_callers)
  have c: "Plain ''invoke failed'' =
      (if CanVisualizeError demo_dig (Plain ''invoke failed'')
       then ErrorWithGraph (Visualize demo_dig 0 (Plain ''invoke failed'')) (Plain ''invoke failed'')
       else Plain ''invoke failed'')"
    by (simp add: demo_dig_def)
  have "New demo_dig ?opts 0 =
        (?app\<lparr>err := Some (Plain ''invoke failed'')\<rparr>,
         (fold (\<lambda>eh. eh (Plain ''invoke failed'')) (errorHooks ?app) 0,
          map (\<lambda>i. ErrorHandled i (Plain ''invoke failed'')) [0..<length (errorHooks ?app)]))"
    by (rule error_hooks_on_invoke_failure [THEN conjunct1, THEN mp,
          OF conjI [OF a conjI [OF b c]], THEN conjunct1])
  then show ?thesis
    by (simp add: New_App_def demo_handler_def demo_handler2_def)
qed


















end
